theory Spec2Isabelle
  imports Complex_Main
begin

section \<open>The lexer of cobaltlang (\<^verbatim>\<open>src/cobalt/lexer.cpp\<close>)\<close>

text \<open>
  The lexer walks a \<^verbatim>\<open>std::string_view\<close> with an iterator \<^verbatim>\<open>_cursor\<close>.  The buffer is
  a \<^typ>\<open>string\<close> here and the iterator is its offset from \<^verbatim>\<open>_source.begin()\<close>, a
  \<^typ>\<open>nat\<close>; \<^verbatim>\<open>_source.end()\<close> is the offset \<open>length source\<close>.  Iterator arithmetic
  is plain addition, so an iterator that was moved beyond the end is an offset larger
  than the length.  Reading through an iterator that does not point into the buffer
  is the error \<open>OutOfBoundsRead\<close>; an exception thrown by a conversion function of the
  standard library is an error of its own.
\<close>

subsection \<open>Data\<close>

text \<open>
  Modelled from the spec: the enumeration \<^verbatim>\<open>TokenType\<close> is declared in \<^verbatim>\<open>lexer.hpp\<close>,
  which is not among the sources.  The spec gives the closed set of kinds; each of
  them is an enumerator that \<^verbatim>\<open>lexer.cpp\<close> uses.
\<close>

datatype TokenType =
    EndOfLine
  | ParameterListBegin
  | ParameterListEnd
  | FunctionBodyBegin
  | FunctionBodyEnd
  | PropertyBodyBegin
  | PropertyBodyEnd
  | Equal
  | TypeConstraintSeparator
  | Separator
  | Return
  | Break
  | Continue
  | Identifier
  | LiteralInt
  | LiteralFloat
  | EndOfFile
  | Unexpected

text \<open>
  Modelled from the spec: the struct \<^verbatim>\<open>Token\<close> is declared in \<^verbatim>\<open>lexer.hpp\<close> too.  The spec
  gives a kind and a span, which is a start offset and a length; \<^verbatim>\<open>lexer.cpp\<close> builds
  a token as \<^verbatim>\<open>{type, string_view}\<close>.
\<close>

record Token =
  kind :: TokenType
  view_begin :: nat
  view_size :: nat

text \<open>
  Modelled from the spec: the member \<^verbatim>\<open>value\<close> is declared in \<^verbatim>\<open>lexer.hpp\<close>.  The spec
  gives a variant over none, string, integer and float; \<^verbatim>\<open>lexer.cpp\<close> assigns to it a
  \<^verbatim>\<open>std::string\<close>, a \<^verbatim>\<open>long long\<close> and a \<^verbatim>\<open>double\<close>.  A \<^verbatim>\<open>double\<close> is represented by the
  real number it denotes.
\<close>

datatype SemValue =
    NoValue
  | StringValue string
  | IntValue int
  | FloatValue real

record Lexer =
  source :: string
  cursor :: nat
  sem_value :: SemValue

datatype error =
    OutOfBoundsRead
  | InvalidArgument
  | OutOfRange

definition ebind :: "error + 'a \<Rightarrow> ('a \<Rightarrow> error + 'b) \<Rightarrow> error + 'b" where
  "ebind m f = (case m of Inl e \<Rightarrow> Inl e | Inr x \<Rightarrow> f x)"

text \<open>
  The constructor \<^verbatim>\<open>Lexer::Lexer(source)\<close>: the cursor starts at \<^verbatim>\<open>source.begin()\<close>, and
  no value is stored yet.
\<close>

definition new_Lexer :: "string \<Rightarrow> Lexer" where
  "new_Lexer src = \<lparr>source = src, cursor = 0, sem_value = NoValue\<rparr>"

subsection \<open>Character classes of the C library, in the C locale\<close>

text \<open>
  \<^verbatim>\<open>isalpha\<close>, \<^verbatim>\<open>isdigit\<close> and \<^verbatim>\<open>isspace\<close> of \<^verbatim>\<open><cctype>\<close> on a byte; bytes beyond
  ASCII belong to no class.
\<close>

definition isalpha :: "char \<Rightarrow> bool" where
  "isalpha c = (let n = (of_char c :: nat) in (65 \<le> n \<and> n \<le> 90) \<or> (97 \<le> n \<and> n \<le> 122))"

definition isdigit :: "char \<Rightarrow> bool" where
  "isdigit c = (let n = (of_char c :: nat) in 48 \<le> n \<and> n \<le> 57)"

definition isspace :: "char \<Rightarrow> bool" where
  "isspace c = (let n = (of_char c :: nat) in n = 32 \<or> (9 \<le> n \<and> n \<le> 13))"

definition is_first_identifier_char :: "char \<Rightarrow> bool" where
  "is_first_identifier_char c = isalpha c"

definition is_identifier_char :: "char \<Rightarrow> bool" where
  "is_identifier_char c = (is_first_identifier_char c \<or> isdigit c)"

subsection \<open>Conversions of the standard library\<close>

definition digit_value :: "char \<Rightarrow> int" where
  "digit_value c = of_char c - 48"

definition decimal :: "string \<Rightarrow> int" where
  "decimal ds = foldl (\<lambda>acc c. 10 * acc + digit_value c) 0 ds"

text \<open>
  \<^verbatim>\<open>std::stoll(str)\<close> in base 10 on a string that starts with neither white space nor
  a sign: it converts the leading run of digits, throws \<^verbatim>\<open>std::invalid_argument\<close>
  when that run is empty and \<^verbatim>\<open>std::out_of_range\<close> when the number does not fit a
  \<^verbatim>\<open>long long\<close> of 64 bits.
\<close>

definition stoll :: "string \<Rightarrow> error + int" where
  "stoll str =
     (let ds = takeWhile isdigit str in
      if ds = [] then Inl InvalidArgument
      else if decimal ds \<le> 2 ^ 63 - 1 then Inr (decimal ds)
      else Inl OutOfRange)"

text \<open>
  \<^verbatim>\<open>std::stod\<close> rounds to a \<^verbatim>\<open>double\<close> and throws on a range error.  The lexer is
  parametrised by it: a function from the text to the number or the exception.
  \<open>stod_exact\<close> is one instance, for evaluation: the exact value of
  \<^verbatim>\<open>digits . digits\<close>, never throwing.
\<close>

definition stod_exact :: "string \<Rightarrow> error + real" where
  "stod_exact str =
     (let ip = takeWhile isdigit str;
          fp = takeWhile isdigit (drop (Suc (length ip)) str)
      in Inr (of_int (decimal ip) + of_int (decimal fp) / 10 ^ length fp))"

subsection \<open>Cursor primitives\<close>

definition eof :: "Lexer \<Rightarrow> bool" where
  "eof s = (cursor s = length (source s))"

text \<open>The expression \<^verbatim>\<open>*_cursor\<close>.\<close>

definition deref :: "Lexer \<Rightarrow> error + char" where
  "deref s =
     (if cursor s < length (source s) then Inr (source s ! cursor s)
      else Inl OutOfBoundsRead)"

text \<open>
  \<^verbatim>\<open>Lexer::match(std::string_view)\<close>.  With the cursor inside the buffer the size test
  protects the comparison.  With the cursor beyond the end the distance is negative,
  its conversion to \<^verbatim>\<open>size_t\<close> is huge, the size test passes and the comparison reads
  \<open>length substring\<close> bytes at the cursor.
\<close>

definition match_view :: "Lexer \<Rightarrow> string \<Rightarrow> error + bool" where
  "match_view s substring =
     (if cursor s \<le> length (source s) then
        Inr (length (source s) - cursor s \<ge> length substring
             \<and> substring = take (length substring) (drop (cursor s) (source s)))
      else if substring = [] then Inr True
      else Inl OutOfBoundsRead)"

text \<open>\<^verbatim>\<open>Lexer::match(char)\<close>: \<^verbatim>\<open>return *_cursor == c;\<close>\<close>

definition match_char :: "Lexer \<Rightarrow> char \<Rightarrow> error + bool" where
  "match_char s c = ebind (deref s) (\<lambda>d. Inr (d = c))"

text \<open>
  \<^verbatim>\<open>Lexer::skip(count)\<close>.  The count is a \<^verbatim>\<open>size_t\<close>; it is added to the cursor with no
  comparison against the bytes left.  For a count of at most the bytes left the sum
  is the new position.  For a larger count the source forms an iterator beyond the end
  of the buffer, which C++ leaves undefined; the sum of the model then only records
  that the result is not a position of the buffer, it is not the address the machine
  computes.  The calls \<^verbatim>\<open>skip()\<close> rely on a default argument declared in \<^verbatim>\<open>lexer.hpp\<close>;
  modelled from the spec, which has \<^verbatim>\<open>advance_past\<close> make one single-byte step, it is 1.
\<close>

definition skip :: "Lexer \<Rightarrow> nat \<Rightarrow> Lexer" where
  "skip s count = (if \<not> eof s then s\<lparr>cursor := cursor s + count\<rparr> else s)"

text \<open>
  \<^verbatim>\<open>Lexer::skip_until(stop_condition)\<close>: \<^verbatim>\<open>while (!eof() && !stop_condition()) ++_cursor;\<close>
  \<^verbatim>\<open>eof\<close> is an equality test, so a cursor beyond the end is not at \<^verbatim>\<open>eof\<close>; the loop
  would then walk on through memory outside the buffer, which is \<open>OutOfBoundsRead\<close>.
\<close>

function skip_until :: "Lexer \<Rightarrow> (Lexer \<Rightarrow> error + bool) \<Rightarrow> error + Lexer" where
  "skip_until s stop_condition =
     (if eof s then Inr s
      else case stop_condition s of
             Inl e \<Rightarrow> Inl e
           | Inr stop \<Rightarrow>
               if stop then Inr s
               else if cursor s < length (source s)
               then skip_until (s\<lparr>cursor := cursor s + 1\<rparr>) stop_condition
               else Inl OutOfBoundsRead)"
  by pat_completeness auto
termination
  by (relation "measure (\<lambda>(s, stop_condition). length (source s) - cursor s)") auto

declare skip_until.simps [simp del]

definition skip_until_char :: "Lexer \<Rightarrow> char \<Rightarrow> error + Lexer" where
  "skip_until_char s stop_char = skip_until s (\<lambda>l. ebind (deref l) (\<lambda>d. Inr (d = stop_char)))"

definition skip_until_view :: "Lexer \<Rightarrow> string \<Rightarrow> error + Lexer" where
  "skip_until_view s stop_string = skip_until s (\<lambda>l. match_view l stop_string)"

definition skip_beyond :: "Lexer \<Rightarrow> (Lexer \<Rightarrow> error + bool) \<Rightarrow> error + Lexer" where
  "skip_beyond s stop_condition = ebind (skip_until s stop_condition) (\<lambda>s'. Inr (skip s' 1))"

definition skip_beyond_char :: "Lexer \<Rightarrow> char \<Rightarrow> error + Lexer" where
  "skip_beyond_char s stop_char = ebind (skip_until_char s stop_char) (\<lambda>s'. Inr (skip s' 1))"

definition skip_beyond_view :: "Lexer \<Rightarrow> string \<Rightarrow> error + Lexer" where
  "skip_beyond_view s stop_string =
     ebind (skip_until_view s stop_string) (\<lambda>s'. Inr (skip s' (length stop_string)))"

subsection \<open>The table of fixed tokens\<close>

definition basic_tokens :: "(string \<times> TokenType) list" where
  "basic_tokens =
     [([CHR 0x0A], EndOfLine),
      (''('', ParameterListBegin),
      ('')'', ParameterListEnd),
      (''{'', FunctionBodyBegin),
      (''}'', FunctionBodyEnd),
      (''['', PropertyBodyBegin),
      ('']'', PropertyBodyEnd),
      (''='', Equal),
      ('':'', TypeConstraintSeparator),
      ('','', Separator)]"

definition try_tokenize :: "Lexer \<Rightarrow> string \<Rightarrow> TokenType \<Rightarrow> error + (Token \<times> Lexer) option" where
  "try_tokenize s name type =
     ebind (match_view s name) (\<lambda>m.
       if m then
         Inr (Some (\<lparr>kind = type, view_begin = cursor s, view_size = length name\<rparr>,
                    skip s (length name)))
       else Inr None)"

text \<open>The loop \<^verbatim>\<open>for (auto& t : basic_tokens)\<close> of \<^verbatim>\<open>next_token\<close>: the first entry that matches wins.\<close>

fun try_basic_tokens :: "Lexer \<Rightarrow> (string \<times> TokenType) list \<Rightarrow> error + (Token \<times> Lexer) option" where
  "try_basic_tokens s [] = Inr None"
| "try_basic_tokens s ((name, type) # ts) =
     (case try_tokenize s name type of
        Inl e \<Rightarrow> Inl e
      | Inr (Some r) \<Rightarrow> Inr (Some r)
      | Inr None \<Rightarrow> try_basic_tokens s ts)"

subsection \<open>\<^verbatim>\<open>Lexer::next_token\<close>\<close>

text \<open>
  Modelled from the spec: \<^verbatim>\<open>make_view\<close> is declared in \<^verbatim>\<open>utility.hpp\<close>, which is not among
  the sources.  The spec gives the span of a produced token as running from its start
  up to the cursor, so \<^verbatim>\<open>make_view(first, last)\<close> is the view from \<^verbatim>\<open>first\<close> up to
  \<^verbatim>\<open>last\<close>.  \<open>view_text\<close> is the text such a view shows, which is also
  \<^verbatim>\<open>std::string{first, last}\<close>.
\<close>

definition view_text :: "string \<Rightarrow> nat \<Rightarrow> nat \<Rightarrow> string" where
  "view_text src i j = take (j - i) (drop i src)"

definition make_token :: "TokenType \<Rightarrow> nat \<Rightarrow> nat \<Rightarrow> Token" where
  "make_token type i j = \<lparr>kind = type, view_begin = i, view_size = j - i\<rparr>"

text \<open>Lines 145 to 162: the identifier branch, entered with a letter at the cursor.\<close>

definition scan_identifier :: "Lexer \<Rightarrow> nat \<Rightarrow> error + (Token \<times> Lexer)" where
  "scan_identifier s token_begin =
     ebind (skip_until s (\<lambda>l. ebind (deref l) (\<lambda>c. Inr (\<not> is_identifier_char c)))) (\<lambda>s1.
       let view = view_text (source s1) token_begin (cursor s1) in
       if view = ''return'' then Inr (make_token Return token_begin (cursor s1), s1)
       else if view = ''break'' then Inr (make_token Break token_begin (cursor s1), s1)
       else if view = ''continue'' then Inr (make_token Continue token_begin (cursor s1), s1)
       else Inr (make_token Identifier token_begin (cursor s1),
                 s1\<lparr>sem_value := StringValue view\<rparr>))"

text \<open>Lines 167 to 180: the numeric branch, entered with a digit at the cursor.\<close>

definition scan_number :: "(string \<Rightarrow> error + real) \<Rightarrow> Lexer \<Rightarrow> nat \<Rightarrow> error + (Token \<times> Lexer)" where
  "scan_number stod s token_begin =
     ebind (skip_until s (\<lambda>l. ebind (deref l) (\<lambda>c. Inr (\<not> isdigit c)))) (\<lambda>s1.
     ebind (match_view s1 ''.'') (\<lambda>dot.
       if dot then
         ebind (skip_until (skip s1 1) (\<lambda>l. ebind (deref l) (\<lambda>c. Inr (\<not> isdigit c)))) (\<lambda>s2.
         ebind (stod (view_text (source s2) token_begin (cursor s2))) (\<lambda>v.
           Inr (make_token LiteralFloat token_begin (cursor s2),
                s2\<lparr>sem_value := FloatValue v\<rparr>)))
       else
         ebind (stoll (view_text (source s1) token_begin (cursor s1))) (\<lambda>v.
           Inr (make_token LiteralInt token_begin (cursor s1),
                s1\<lparr>sem_value := IntValue v\<rparr>))))"

text \<open>Lines 117 to 126: white space, then at most one comment.\<close>

definition skip_blank :: "Lexer \<Rightarrow> error + Lexer" where
  "skip_blank s =
     ebind (skip_until s (\<lambda>l. ebind (deref l) (\<lambda>c. Inr (\<not> isspace c)))) (\<lambda>s1.
     ebind (match_view s1 ''//'') (\<lambda>line_comment.
       if line_comment then skip_until_char s1 (CHR 0x0A)
       else
         ebind (match_view s1 ''/*'') (\<lambda>block_comment.
           if block_comment then skip_beyond_view s1 ''*/'' else Inr s1)))"

definition next_token :: "(string \<Rightarrow> error + real) \<Rightarrow> Lexer \<Rightarrow> error + (Token \<times> Lexer)" where
  "next_token stod s =
     ebind (skip_blank s) (\<lambda>s1.
       if eof s1 then Inr (\<lparr>kind = EndOfFile, view_begin = cursor s1, view_size = 1\<rparr>, s1)
       else
         let token_begin = cursor s1 in
         ebind (try_basic_tokens s1 basic_tokens) (\<lambda>basic.
           case basic of
             Some r \<Rightarrow> Inr r
           | None \<Rightarrow>
               ebind (deref s1) (\<lambda>c.
                 if is_first_identifier_char c then scan_identifier s1 token_begin
                 else if isdigit c then scan_number stod s1 token_begin
                 else Inr (\<lparr>kind = Unexpected, view_begin = cursor s1, view_size = 1\<rparr>,
                           s1\<lparr>cursor := cursor s1 + 1\<rparr>))))"

text \<open>
  Successive calls: \<open>next_tokens stod n s\<close> calls \<open>next_token\<close> \<open>n\<close> times, each call on the
  state the call before left, and collects the tokens; an exception ends the run.
\<close>

fun next_tokens :: "(string \<Rightarrow> error + real) \<Rightarrow> nat \<Rightarrow> Lexer \<Rightarrow> error + (Token list \<times> Lexer)" where
  "next_tokens stod 0 s = Inr ([], s)"
| "next_tokens stod (Suc n) s =
     (case next_token stod s of
        Inl e \<Rightarrow> Inl e
      | Inr (t, s') \<Rightarrow>
          (case next_tokens stod n s' of
             Inl e \<Rightarrow> Inl e
           | Inr (ts, s'') \<Rightarrow> Inr (t # ts, s'')))"

text \<open>The text that the view of a token shows in the buffer.\<close>

definition token_text :: "string \<Rightarrow> Token \<Rightarrow> string" where
  "token_text src t = take (view_size t) (drop (view_begin t) src)"

text \<open>
  For the statement about comments that are not closed: whether the two bytes \<^verbatim>\<open>*/\<close>
  occur next to each other anywhere in a text.
\<close>

fun contains_block_end :: "string \<Rightarrow> bool" where
  "contains_block_end (a # b # xs) = ((a = CHR ''*'' \<and> b = CHR ''/'') \<or> contains_block_end (b # xs))"
| "contains_block_end _ = False"

section \<open>Properties\<close>

subsection \<open>The error monad and the scanning loop\<close>

lemma ebind_simps [simp]: "ebind (Inl e) f = Inl e" "ebind (Inr x) f = f x"
  by (simp_all add: ebind_def)

lemma ebind_eq_Inr: "ebind m f = Inr y \<longleftrightarrow> (\<exists>x. m = Inr x \<and> f x = Inr y)"
  by (cases m) simp_all

text \<open>
  What a run of the loop that ends normally has done: only the cursor changed, it did
  not move back, it stayed inside the buffer when it started there, and it stands at
  the end or where the stop condition holds.
\<close>

lemma skip_until_Inr:
  "skip_until s stop = Inr s' \<Longrightarrow>
     s' = s\<lparr>cursor := cursor s'\<rparr> \<and> cursor s \<le> cursor s'
     \<and> (cursor s \<le> length (source s) \<longrightarrow> cursor s' \<le> length (source s))
     \<and> (eof s' \<or> stop s' = Inr True)"
proof (induction s stop rule: skip_until.induct)
  case (1 s stop)
  show ?case
  proof (cases "eof s")
    case True
    with "1.prems" show ?thesis by (simp add: skip_until.simps)
  next
    case False
    with "1.prems" obtain b where b: "stop s = Inr b"
      by (subst (asm) skip_until.simps) (simp split: sum.splits)
    show ?thesis
    proof (cases b)
      case True
      with False b "1.prems" show ?thesis by (subst (asm) skip_until.simps) auto
    next
      case nb: False
      with False b "1.prems" have lt: "cursor s < length (source s)"
        and rec: "skip_until (s\<lparr>cursor := cursor s + 1\<rparr>) stop = Inr s'"
        by (subst (asm) skip_until.simps, simp split: if_splits)+
      from "1.IH" [OF False b nb lt rec] lt show ?thesis by simp
    qed
  qed
qed

text \<open>A stop condition that reads through the cursor lets no run start beyond the end.\<close>

lemma skip_until_start_in_bounds:
  assumes "skip_until s stop = Inr s'"
    and "length (source s) < cursor s \<Longrightarrow> \<exists>e. stop s = Inl e"
  shows "cursor s \<le> length (source s)"
proof (rule ccontr)
  assume "\<not> cursor s \<le> length (source s)"
  then have gt: "length (source s) < cursor s" by simp
  then have "\<not> eof s" by (simp add: eof_def)
  moreover from assms(2) [OF gt] obtain e where "stop s = Inl e" ..
  ultimately have "skip_until s stop = Inl e" by (subst skip_until.simps) simp
  with assms(1) show False by simp
qed

text \<open>The run of the loop over a stretch on which the stop condition is known.\<close>

lemma skip_until_run:
  assumes "cursor s \<le> k" and "k \<le> length (source s)"
    and "\<And>i. cursor s \<le> i \<Longrightarrow> i < k \<Longrightarrow> stop (s\<lparr>cursor := i\<rparr>) = Inr False"
    and "k = length (source s) \<or> stop (s\<lparr>cursor := k\<rparr>) = Inr True"
  shows "skip_until s stop = Inr (s\<lparr>cursor := k\<rparr>)"
  using assms
proof (induction "k - cursor s" arbitrary: s)
  case 0
  then have k: "cursor s = k" by simp
  then have s: "s\<lparr>cursor := k\<rparr> = s" by simp
  from "0.prems"(4) show ?case
    unfolding s using k by (subst skip_until.simps) (auto simp: eof_def)
next
  case (Suc d)
  then have lt: "cursor s < k" by simp
  with Suc.prems have ne: "\<not> eof s" by (simp add: eof_def)
  have st: "stop s = Inr False" using Suc.prems(3) [of "cursor s"] lt by simp
  let ?s = "s\<lparr>cursor := cursor s + 1\<rparr>"
  have "skip_until ?s stop = Inr (?s\<lparr>cursor := k\<rparr>)"
  proof (rule Suc.hyps(1))
    show "d = k - cursor ?s" using Suc.hyps(2) by simp
    show "cursor ?s \<le> k" using lt by simp
    show "k \<le> length (source ?s)" using Suc.prems(2) by simp
    show "stop (?s\<lparr>cursor := i\<rparr>) = Inr False" if "cursor ?s \<le> i" "i < k" for i
      using Suc.prems(3) [of i] that by simp
    show "k = length (source ?s) \<or> stop (?s\<lparr>cursor := k\<rparr>) = Inr True"
      using Suc.prems(4) by simp
  qed
  with ne st lt Suc.prems(2) show ?case
    by (subst skip_until.simps) simp
qed

text \<open>The unfoldings that evaluate the lexer on a given input.\<close>

lemmas lex_eval = new_Lexer_def next_token_def skip_blank_def skip_until.simps
  skip_until_char_def skip_until_view_def skip_beyond_view_def skip_def eof_def deref_def
  match_view_def match_char_def try_tokenize_def basic_tokens_def scan_identifier_def
  scan_number_def view_text_def make_token_def stoll_def decimal_def digit_value_def
  isspace_def isalpha_def isdigit_def is_first_identifier_char_def is_identifier_char_def
  token_text_def

subsection \<open>What one call of the lexer does\<close>

lemma Lexer_frame:
  "s' = s\<lparr>cursor := k\<rparr> \<Longrightarrow> source s' = source s \<and> sem_value s' = sem_value s"
  by simp

lemma Lexer_update_twice:
  "s' = s\<lparr>cursor := k\<rparr> \<Longrightarrow> s\<lparr>cursor := j\<rparr> = s'\<lparr>cursor := j\<rparr>"
  by simp

lemma deref_stop_beyond:
  "length (source s) < cursor s \<Longrightarrow> \<exists>e. ebind (deref s) f = Inl e"
  by (simp add: deref_def)

lemma skip_until_deref_Inr:
  assumes "skip_until s (\<lambda>l. ebind (deref l) (f l)) = Inr s'"
  shows "s' = s\<lparr>cursor := cursor s'\<rparr> \<and> cursor s \<le> cursor s' \<and> cursor s' \<le> length (source s)"
proof -
  have "cursor s \<le> length (source s)"
    using assms by (rule skip_until_start_in_bounds) (simp add: deref_def)
  with skip_until_Inr [OF assms] show ?thesis by simp
qed

lemma skip_beyond_view_Inr:
  assumes "skip_beyond_view s str = Inr s'" and "cursor s \<le> length (source s)"
  shows "s' = s\<lparr>cursor := cursor s'\<rparr> \<and> cursor s \<le> cursor s' \<and> cursor s' \<le> length (source s)"
proof -
  from assms(1) obtain b where b: "skip_until s (\<lambda>l. match_view l str) = Inr b"
    and s': "s' = skip b (length str)"
    by (auto simp: skip_beyond_view_def skip_until_view_def ebind_eq_Inr)
  note B = skip_until_Inr [OF b]
  from B assms(2) have bb: "cursor b \<le> length (source s)" and src: "source b = source s"
    using Lexer_frame [of b "cursor b" s] by simp_all
  show ?thesis
  proof (cases "eof b")
    case True
    with s' B assms(2) show ?thesis by (simp add: skip_def)
  next
    case False
    with B have "match_view b str = Inr True" by simp
    with bb src have "cursor b + length str \<le> length (source s)"
      by (auto simp: match_view_def)
    moreover have "s\<lparr>cursor := cursor b + length str\<rparr> = b\<lparr>cursor := cursor b + length str\<rparr>"
      using Lexer_update_twice [of b "cursor b" s] B by simp
    ultimately show ?thesis using s' False B by (simp add: skip_def)
  qed
qed

lemma skip_blank_Inr:
  assumes "skip_blank s = Inr s'"
  shows "s' = s\<lparr>cursor := cursor s'\<rparr> \<and> cursor s \<le> cursor s' \<and> cursor s' \<le> length (source s)"
proof -
  from assms obtain a m where a: "skip_until s (\<lambda>l. ebind (deref l) (\<lambda>c. Inr (\<not> isspace c))) = Inr a"
    and m: "match_view a ''//'' = Inr m"
    and rest: "(if m then skip_until_char a (CHR 0x0A)
                else ebind (match_view a ''/*'') (\<lambda>block_comment.
                  if block_comment then skip_beyond_view a ''*/'' else Inr a)) = Inr s'"
    by (auto simp: skip_blank_def ebind_eq_Inr)
  note A = skip_until_deref_Inr [OF a]
  have asrc: "source a = source s"
    using Lexer_frame [of a "cursor a" s] A by simp
  have step: "s' = a\<lparr>cursor := cursor s'\<rparr> \<and> cursor a \<le> cursor s' \<and> cursor s' \<le> length (source a)"
  proof (cases m)
    case True
    with rest have "skip_until a (\<lambda>l. ebind (deref l) (\<lambda>d. Inr (d = CHR 0x0A))) = Inr s'"
      by (simp add: skip_until_char_def)
    then show ?thesis by (rule skip_until_deref_Inr)
  next
    case False
    with rest obtain m2 where m2: "match_view a ''/*'' = Inr m2"
      and r2: "(if m2 then skip_beyond_view a ''*/'' else Inr a) = Inr s'"
      by (auto simp: ebind_eq_Inr)
    show ?thesis
    proof (cases m2)
      case True
      with r2 have "skip_beyond_view a ''*/'' = Inr s'" by simp
      then show ?thesis by (rule skip_beyond_view_Inr) (use A asrc in simp)
    next
      case False
      with r2 A asrc show ?thesis by simp
    qed
  qed
  have "s\<lparr>cursor := cursor s'\<rparr> = a\<lparr>cursor := cursor s'\<rparr>"
    using Lexer_update_twice [of a "cursor a" s] A by simp
  with step A asrc show ?thesis by simp
qed

lemma try_tokenize_Some:
  assumes "try_tokenize s name type = Inr (Some (t, s'))" and "cursor s \<le> length (source s)"
  shows "t = \<lparr>kind = type, view_begin = cursor s, view_size = length name\<rparr>
         \<and> s' = s\<lparr>cursor := cursor s'\<rparr> \<and> cursor s \<le> cursor s'
         \<and> cursor s' \<le> length (source s)"
  using assms
  by (auto simp: try_tokenize_def match_view_def skip_def eof_def split: if_splits)

lemma try_basic_tokens_Some:
  assumes "try_basic_tokens s tbl = Inr (Some (t, s'))" and "cursor s \<le> length (source s)"
  shows "kind t \<in> snd ` set tbl \<and> sem_value s' = sem_value s \<and> source s' = source s
         \<and> cursor s \<le> cursor s' \<and> cursor s' \<le> length (source s)"
  using assms
proof (induction tbl)
  case Nil
  then show ?case by simp
next
  case (Cons p tbl)
  obtain name type where p: "p = (name, type)" by (cases p)
  show ?case
  proof (cases "try_tokenize s name type")
    case (Inl e)
    with Cons.prems p show ?thesis by simp
  next
    case (Inr r)
    show ?thesis
    proof (cases r)
      case None
      with Inr Cons p show ?thesis by simp
    next
      case (Some ts)
      with Inr Cons.prems p have tt: "try_tokenize s name type = Inr (Some (t, s'))" by simp
      note T = try_tokenize_Some [OF tt Cons.prems(2)]
      from T have "sem_value s' = sem_value s" "source s' = source s"
        using Lexer_frame [of s' "cursor s'" s] by simp_all
      with T p show ?thesis by simp
    qed
  qed
qed

lemma scan_identifier_Inr:
  assumes "scan_identifier s b = Inr (t, s')"
  shows "source s' = source s \<and> cursor s \<le> cursor s' \<and> cursor s' \<le> length (source s)
         \<and> t = make_token (kind t) b (cursor s')
         \<and> (kind t \<in> {Return, Break, Continue} \<and> sem_value s' = sem_value s
            \<or> kind t = Identifier
              \<and> sem_value s' = StringValue (view_text (source s) b (cursor s')))"
proof (cases "skip_until s (\<lambda>l. ebind (deref l) (\<lambda>c. Inr (\<not> is_identifier_char c)))")
  case (Inl e)
  with assms show ?thesis by (simp add: scan_identifier_def)
next
  case (Inr a)
  note A = skip_until_deref_Inr [OF Inr]
  from A have fr: "source a = source s" "sem_value a = sem_value s"
    using Lexer_frame [of a "cursor a" s] by simp_all
  define view where "view = view_text (source a) b (cursor a)"
  have r: "(if view = ''return'' then Inr (make_token Return b (cursor a), a)
       else if view = ''break'' then Inr (make_token Break b (cursor a), a)
       else if view = ''continue'' then Inr (make_token Continue b (cursor a), a)
       else Inr (make_token Identifier b (cursor a),
                 a\<lparr>sem_value := StringValue view\<rparr>))
            = (Inr (t, s') :: error + Token \<times> Lexer)"
    using assms unfolding scan_identifier_def Inr ebind_simps Let_def view_def .
  consider (ret) "view = ''return''" | (brk) "view \<noteq> ''return''" "view = ''break''"
    | (cont) "view \<noteq> ''return''" "view \<noteq> ''break''" "view = ''continue''"
    | (ident) "view \<noteq> ''return''" "view \<noteq> ''break''" "view \<noteq> ''continue''"
    by blast
  then show ?thesis
  proof cases
    case ret
    with r have "t = make_token Return b (cursor a)" "s' = a"
      by auto
    with A fr show ?thesis by (simp add: make_token_def)
  next
    case brk
    with r have "t = make_token Break b (cursor a)" "s' = a"
      by auto
    with A fr show ?thesis by (simp add: make_token_def)
  next
    case cont
    with r have "t = make_token Continue b (cursor a)" "s' = a"
      by auto
    with A fr show ?thesis by (simp add: make_token_def)
  next
    case ident
    with r have "t = make_token Identifier b (cursor a)" "s' = a\<lparr>sem_value := StringValue view\<rparr>"
      by auto
    with A fr show ?thesis by (simp add: make_token_def view_def)
  qed
qed

lemma token_text_make_token:
  "t = make_token k b e \<Longrightarrow> token_text src t = view_text src b e"
  by (simp add: view_text_def token_text_def make_token_def)

lemma scan_number_Inr:
  assumes "scan_number stod s b = Inr (t, s')"
  shows "source s' = source s \<and> cursor s \<le> cursor s' \<and> cursor s' \<le> length (source s)
         \<and> t = make_token (kind t) b (cursor s')
         \<and> (kind t = LiteralInt
              \<and> (\<exists>n. stoll (view_text (source s) b (cursor s')) = Inr n \<and> sem_value s' = IntValue n)
            \<or> kind t = LiteralFloat
              \<and> (\<exists>x. stod (view_text (source s) b (cursor s')) = Inr x \<and> sem_value s' = FloatValue x))"
proof (cases "skip_until s (\<lambda>l. ebind (deref l) (\<lambda>c. Inr (\<not> isdigit c)))")
  case (Inl e)
  with assms show ?thesis by (simp add: scan_number_def)
next
  case (Inr a)
  note A = skip_until_deref_Inr [OF Inr]
  from A have fra: "source a = source s" "sem_value a = sem_value s"
    using Lexer_frame [of a "cursor a" s] by simp_all
  from A fra have dot: "match_view a ''.'' = Inr (cursor a < length (source a) \<and> source a ! cursor a = CHR ''.'')"
    by (auto simp: match_view_def take_Suc_conv_app_nth hd_drop_conv_nth take_Suc)
  show ?thesis
  proof (cases "cursor a < length (source a) \<and> source a ! cursor a = CHR ''.''")
    case False
    with dot have d: "match_view a ''.'' = Inr False" by simp
    from assms obtain n where n: "stoll (view_text (source a) b (cursor a)) = Inr n"
      and t: "t = make_token LiteralInt b (cursor a)" and s': "s' = a\<lparr>sem_value := IntValue n\<rparr>"
      unfolding scan_number_def Inr d ebind_simps if_False
      by (cases "stoll (view_text (source a) b (cursor a))") auto
    with A fra show ?thesis by (simp add: make_token_def)
  next
    case True
    with dot have d: "match_view a ''.'' = Inr True" by simp
    from True have sk: "skip a 1 = a\<lparr>cursor := cursor a + 1\<rparr>" by (simp add: skip_def eof_def)
    show ?thesis
    proof (cases "skip_until (skip a 1) (\<lambda>l. ebind (deref l) (\<lambda>c. Inr (\<not> isdigit c)))")
      case (Inl e)
      with assms show ?thesis by (simp add: scan_number_def \<open>skip_until s _ = Inr a\<close> d)
    next
      case c: (Inr c)
      note C = skip_until_deref_Inr [OF c]
      from C sk have frc: "source c = source a" "sem_value c = sem_value a" "cursor a \<le> cursor c"
        using Lexer_frame [of c "cursor c" "skip a 1"] by simp_all
      from assms obtain x where x: "stod (view_text (source c) b (cursor c)) = Inr x"
        and t: "t = make_token LiteralFloat b (cursor c)" and s': "s' = c\<lparr>sem_value := FloatValue x\<rparr>"
        unfolding scan_number_def Inr d ebind_simps if_True c
        by (cases "stod (view_text (source c) b (cursor c))") auto
      with A fra C frc sk show ?thesis by (simp add: make_token_def)
    qed
  qed
qed

lemma basic_tokens_kinds:
  "k \<in> snd ` set basic_tokens \<Longrightarrow> k \<notin> {Identifier, LiteralInt, LiteralFloat, EndOfFile}"
  by (auto simp: basic_tokens_def)

lemma next_token_Inr:
  assumes "next_token stod s = Inr (t, s')"
  shows "source s' = source s \<and> cursor s \<le> cursor s' \<and> cursor s' \<le> length (source s)
         \<and> (kind t = EndOfFile \<longrightarrow> eof s' \<and> t = \<lparr>kind = EndOfFile, view_begin = cursor s', view_size = 1\<rparr>)
         \<and> (kind t = Identifier \<longrightarrow> sem_value s' = StringValue (token_text (source s) t))
         \<and> (kind t = LiteralInt \<longrightarrow>
               (\<exists>n. stoll (token_text (source s) t) = Inr n \<and> sem_value s' = IntValue n))
         \<and> (kind t = LiteralFloat \<longrightarrow>
               (\<exists>x. stod (token_text (source s) t) = Inr x \<and> sem_value s' = FloatValue x))
         \<and> (kind t \<notin> {Identifier, LiteralInt, LiteralFloat} \<longrightarrow> sem_value s' = sem_value s)"
proof (cases "skip_blank s")
  case (Inl e)
  with assms show ?thesis by (simp add: next_token_def)
next
  case (Inr s1)
  note B = skip_blank_Inr [OF Inr]
  from B have fr1: "source s1 = source s" "sem_value s1 = sem_value s"
    using Lexer_frame [of s1 "cursor s1" s] by simp_all
  show ?thesis
  proof (cases "eof s1")
    case True
    with assms Inr have "t = \<lparr>kind = EndOfFile, view_begin = cursor s1, view_size = 1\<rparr>" "s' = s1"
      by (auto simp: next_token_def)
    with True B fr1 show ?thesis by simp
  next
    case ne: False
    show ?thesis
    proof (cases "try_basic_tokens s1 basic_tokens")
      case (Inl e)
      with assms Inr ne show ?thesis by (simp add: next_token_def)
    next
      case basic: (Inr r)
      show ?thesis
      proof (cases r)
        case (Some p)
        with assms Inr ne basic have "p = (t, s')" by (simp add: next_token_def)
        with basic Some have "try_basic_tokens s1 basic_tokens = Inr (Some (t, s'))" by simp
        from try_basic_tokens_Some [OF this] B fr1
        have T: "kind t \<in> snd ` set basic_tokens" "sem_value s' = sem_value s"
          "source s' = source s" "cursor s1 \<le> cursor s'" "cursor s' \<le> length (source s)"
          by simp_all
        from basic_tokens_kinds [OF T(1)] T B show ?thesis by simp
      next
        case None
        show ?thesis
        proof (cases "deref s1")
          case (Inl e)
          with assms Inr ne basic None show ?thesis by (simp add: next_token_def)
        next
          case c: (Inr c)
          note unfold = next_token_def Inr ebind_simps Let_def basic None
            option.case c
          show ?thesis
          proof (cases "is_first_identifier_char c")
            case True
            with assms ne have "scan_identifier s1 (cursor s1) = Inr (t, s')"
              unfolding unfold by simp
            note I = scan_identifier_Inr [OF this]
            from I have "t = make_token (kind t) (cursor s1) (cursor s')" by simp
            then have "token_text (source s) t = view_text (source s) (cursor s1) (cursor s')"
              by (rule token_text_make_token)
            with I B fr1 show ?thesis by auto
          next
            case nf: False
            show ?thesis
            proof (cases "isdigit c")
              case True
              with assms ne nf have "scan_number stod s1 (cursor s1) = Inr (t, s')"
                unfolding unfold by simp
              note N = scan_number_Inr [OF this]
              from N have "t = make_token (kind t) (cursor s1) (cursor s')" by simp
              then have "token_text (source s) t = view_text (source s) (cursor s1) (cursor s')"
                by (rule token_text_make_token)
              with N B fr1 show ?thesis by auto
            next
              case False
              with assms ne nf have "t = \<lparr>kind = Unexpected, view_begin = cursor s1, view_size = 1\<rparr>"
                "s' = s1\<lparr>cursor := cursor s1 + 1\<rparr>"
                unfolding unfold by auto
              moreover from ne B fr1 have "cursor s1 < length (source s)"
                by (simp add: eof_def)
              ultimately show ?thesis using B fr1 by simp
            qed
          qed
        qed
      qed
    qed
  qed
qed

lemma next_token_at_eof:
  assumes "eof s"
  shows "next_token stod s = Inr (\<lparr>kind = EndOfFile, view_begin = cursor s, view_size = 1\<rparr>, s)"
proof -
  have "skip_until s stop = Inr s" for stop
    using assms by (subst skip_until.simps) simp
  moreover have "match_view s ''//'' = Inr False" "match_view s ''/*'' = Inr False"
    using assms by (simp_all add: match_view_def eof_def)
  ultimately have "skip_blank s = Inr s" by (simp add: skip_blank_def)
  with assms show ?thesis by (simp add: next_token_def)
qed

lemma next_tokens_Inr:
  "next_tokens stod n s = Inr (ts, s') \<Longrightarrow> cursor s \<le> length (source s) \<Longrightarrow>
     source s' = source s \<and> cursor s \<le> cursor s' \<and> cursor s' \<le> length (source s)"
proof (induction n arbitrary: s ts)
  case 0
  then show ?case by simp
next
  case (Suc n)
  from Suc.prems(1) obtain t s1 ts' where 1: "next_token stod s = Inr (t, s1)"
    and 2: "next_tokens stod n s1 = Inr (ts', s')"
    by (auto split: sum.splits)
  note N = next_token_Inr [OF 1]
  with Suc.IH [OF 2] show ?case by simp
qed

subsection \<open>Evaluation on given inputs\<close>

text \<open>
  C1: on the input that is one newline, the first call should return one \<open>EndOfLine\<close>
  token over the whole input and the second \<open>EndOfFile\<close>.  The code does otherwise:
  the white-space loop of line 117 consumes the newline, since \<^verbatim>\<open>isspace\<close> holds of
  it, before the table of fixed tokens is tried; both calls return \<open>EndOfFile\<close> at
  offset 1.
\<close>

theorem newline_only_input_is_swallowed:
  "next_tokens stod_exact 2 (new_Lexer [CHR 0x0A]) =
     Inr ([\<lparr>kind = EndOfFile, view_begin = 1, view_size = 1\<rparr>,
           \<lparr>kind = EndOfFile, view_begin = 1, view_size = 1\<rparr>],
          \<lparr>source = [CHR 0x0A], cursor = 1, sem_value = NoValue\<rparr>)"
  by (simp add: numeral_2_eq_2 lex_eval)

text \<open>
  C2: the input \<^verbatim>\<open>/* a */ 42\<close> should give \<open>LiteralInt\<close> for 42 and then \<open>EndOfFile\<close>.
  The code skips white space once, before the comment, and not after it: the first
  call returns \<open>Unexpected\<close> for the space at offset 7, the second the literal, the
  third \<open>EndOfFile\<close>.
\<close>

theorem space_after_block_comment_is_unexpected:
  "next_tokens stod_exact 3 (new_Lexer ''/* a */ 42'') =
     Inr ([\<lparr>kind = Unexpected, view_begin = 7, view_size = 1\<rparr>,
           \<lparr>kind = LiteralInt, view_begin = 8, view_size = 2\<rparr>,
           \<lparr>kind = EndOfFile, view_begin = 10, view_size = 1\<rparr>],
          \<lparr>source = ''/* a */ 42'', cursor = 10, sem_value = IntValue 42\<rparr>)"
  by (simp add: numeral_3_eq_3 lex_eval)

text \<open>
  C3: \<^verbatim>\<open>match(char)\<close> should answer false at the end of the buffer and read nothing
  there.  The code reads \<^verbatim>\<open>*_cursor\<close> with no test: on the empty buffer the cursor is
  the end, and the read is out of bounds.
\<close>

theorem match_char_at_end_reads_out_of_bounds:
  "match_char (new_Lexer []) (CHR ''a'') = Inl OutOfBoundsRead"
  by (simp add: lex_eval)

lemma match_char_eof: "eof s \<Longrightarrow> match_char s c = Inl OutOfBoundsRead"
  by (simp add: match_char_def deref_def eof_def)

lemma match_char_in_bounds:
  "cursor s < length (source s) \<Longrightarrow> match_char s c = Inr (source s ! cursor s = c)"
  by (simp add: match_char_def deref_def)

text \<open>
  C8, as stated: \<^verbatim>\<open>skip(n)\<close> never leaves the cursor beyond the end.  On the buffer
  \<^verbatim>\<open>ab\<close> with the cursor at offset 1, \<^verbatim>\<open>skip(5)\<close> leaves it at offset 6.
\<close>

theorem skip_overshoot_counterexample:
  "cursor \<lparr>source = ''ab'', cursor = 1, sem_value = NoValue\<rparr> \<le> length ''ab''
   \<and> cursor (skip \<lparr>source = ''ab'', cursor = 1, sem_value = NoValue\<rparr> 5) = 6
   \<and> \<not> cursor (skip \<lparr>source = ''ab'', cursor = 1, sem_value = NoValue\<rparr> 5) \<le> length ''ab''"
  by (simp add: skip_def eof_def)

text \<open>
  C8, amended: from a cursor inside the buffer, \<^verbatim>\<open>skip(n)\<close> does nothing when the cursor
  is at the end; when it is not and \<open>n\<close> is at most the number of bytes left, it moves
  the cursor forward by \<open>n\<close>, which leaves it inside the buffer.  Nothing is said of a
  larger \<open>n\<close>: the count is not compared with the bytes left.
\<close>

theorem skip_at_end_or_within_bytes_left:
  "cursor s \<le> length (source s) \<Longrightarrow>
     (eof s \<longrightarrow> skip s n = s)
     \<and> (\<not> eof s \<and> n \<le> length (source s) - cursor s \<longrightarrow>
          skip s n = s\<lparr>cursor := cursor s + n\<rparr> \<and> cursor (skip s n) \<le> length (source s))"
  by (auto simp: skip_def eof_def)

theorem skip_at_end_or_within_bytes_left_witness:
  "cursor \<lparr>source = ''ab'', cursor = 1, sem_value = NoValue\<rparr> \<le> length ''ab''
   \<and> skip \<lparr>source = ''ab'', cursor = 1, sem_value = NoValue\<rparr> 1
       = \<lparr>source = ''ab'', cursor = 2, sem_value = NoValue\<rparr>
   \<and> skip \<lparr>source = ''ab'', cursor = 2, sem_value = NoValue\<rparr> 1
       = \<lparr>source = ''ab'', cursor = 2, sem_value = NoValue\<rparr>"
  using skip_at_end_or_within_bytes_left
      [of "\<lparr>source = ''ab'', cursor = 1, sem_value = NoValue\<rparr>" 1]
    skip_at_end_or_within_bytes_left
      [of "\<lparr>source = ''ab'', cursor = 2, sem_value = NoValue\<rparr>" 1]
  by (simp add: eof_def)

subsection \<open>Properties of every call\<close>

text \<open>
  C5: once a call has returned \<open>EndOfFile\<close>, every later call returns the same
  \<open>EndOfFile\<close> token and leaves the whole state of the lexer, the cursor included,
  as it is: \<open>n\<close> more calls give \<open>n\<close> copies of the token and the same state.
\<close>

theorem eof_is_terminal:
  assumes "next_token stod s = Inr (t, s')" and "kind t = EndOfFile"
  shows "next_tokens stod n s' = Inr (replicate n t, s')"
proof -
  from next_token_Inr [OF assms(1)] assms(2)
  have "eof s'" and "t = \<lparr>kind = EndOfFile, view_begin = cursor s', view_size = 1\<rparr>"
    by simp_all
  with next_token_at_eof [of s' stod] have "next_token stod s' = Inr (t, s')" by simp
  then show ?thesis by (induction n) simp_all
qed

theorem eof_is_terminal_witness:
  "next_token stod_exact (new_Lexer ''  '') =
     Inr (\<lparr>kind = EndOfFile, view_begin = 2, view_size = 1\<rparr>,
          \<lparr>source = ''  '', cursor = 2, sem_value = NoValue\<rparr>)
   \<and> next_tokens stod_exact 2 \<lparr>source = ''  '', cursor = 2, sem_value = NoValue\<rparr> =
     Inr ([\<lparr>kind = EndOfFile, view_begin = 2, view_size = 1\<rparr>,
           \<lparr>kind = EndOfFile, view_begin = 2, view_size = 1\<rparr>],
          \<lparr>source = ''  '', cursor = 2, sem_value = NoValue\<rparr>)"
  using eof_is_terminal [of stod_exact "new_Lexer ''  ''"
      "\<lparr>kind = EndOfFile, view_begin = 2, view_size = 1\<rparr>"
      "\<lparr>source = ''  '', cursor = 2, sem_value = NoValue\<rparr>" 2]
  by (simp add: numeral_2_eq_2 lex_eval)

text \<open>
  C7: take a new lexer on any source, make \<open>m\<close> calls and then \<open>n\<close> more, none of which
  ends in an exception.  The cursor after the last call is not before the cursor after
  the first \<open>m\<close> calls, and it is at most the length of the source, which is unchanged.
  With \<open>m = 0\<close> the earlier cursor is the start of the buffer.
\<close>

theorem cursor_monotone_within_buffer:
  assumes "next_tokens stod m (new_Lexer src) = Inr (ts1, s1)"
    and "next_tokens stod n s1 = Inr (ts2, s2)"
  shows "source s2 = src \<and> cursor s1 \<le> cursor s2 \<and> cursor s2 \<le> length src"
proof -
  from next_tokens_Inr [OF assms(1)]
  have 1: "source s1 = src" "cursor s1 \<le> length src" by (simp_all add: new_Lexer_def)
  with next_tokens_Inr [OF assms(2)] show ?thesis by simp
qed

theorem cursor_monotone_within_buffer_witness:
  "next_tokens stod_exact 1 (new_Lexer ''a 1'') =
     Inr ([\<lparr>kind = Identifier, view_begin = 0, view_size = 1\<rparr>],
          \<lparr>source = ''a 1'', cursor = 1, sem_value = StringValue ''a''\<rparr>)
   \<and> next_tokens stod_exact 1 \<lparr>source = ''a 1'', cursor = 1, sem_value = StringValue ''a''\<rparr> =
     Inr ([\<lparr>kind = LiteralInt, view_begin = 2, view_size = 1\<rparr>],
          \<lparr>source = ''a 1'', cursor = 3, sem_value = IntValue 1\<rparr>)
   \<and> (1::nat) \<le> 3 \<and> (3::nat) \<le> length ''a 1''"
  using cursor_monotone_within_buffer [of stod_exact 1 "''a 1''"
      "[\<lparr>kind = Identifier, view_begin = 0, view_size = 1\<rparr>]"
      "\<lparr>source = ''a 1'', cursor = 1, sem_value = StringValue ''a''\<rparr>" 1
      "[\<lparr>kind = LiteralInt, view_begin = 2, view_size = 1\<rparr>]"
      "\<lparr>source = ''a 1'', cursor = 3, sem_value = IntValue 1\<rparr>"]
  by (simp add: lex_eval)

text \<open>
  C10: a call that returns \<open>Identifier\<close> has stored the text of the token, one that
  returns \<open>LiteralInt\<close> or \<open>LiteralFloat\<close> has stored what \<^verbatim>\<open>stoll\<close> or \<^verbatim>\<open>stod\<close> made
  of the text, and a call that returns any other kind has left the stored value as
  it was before the call.
\<close>

theorem sem_value_written_for_valued_kinds_only:
  assumes "next_token stod s = Inr (t, s')"
  shows "(kind t = Identifier \<longrightarrow> sem_value s' = StringValue (token_text (source s) t))
       \<and> (kind t = LiteralInt \<longrightarrow>
            (\<exists>n. stoll (token_text (source s) t) = Inr n \<and> sem_value s' = IntValue n))
       \<and> (kind t = LiteralFloat \<longrightarrow>
            (\<exists>x. stod (token_text (source s) t) = Inr x \<and> sem_value s' = FloatValue x))
       \<and> (kind t \<notin> {Identifier, LiteralInt, LiteralFloat} \<longrightarrow> sem_value s' = sem_value s)"
  using next_token_Inr [OF assms] by simp

theorem sem_value_written_for_valued_kinds_only_witness:
  "next_token stod_exact (new_Lexer ''x)'') =
     Inr (\<lparr>kind = Identifier, view_begin = 0, view_size = 1\<rparr>,
          \<lparr>source = ''x)'', cursor = 1, sem_value = StringValue ''x''\<rparr>)
   \<and> next_token stod_exact \<lparr>source = ''x)'', cursor = 1, sem_value = StringValue ''x''\<rparr> =
     Inr (\<lparr>kind = ParameterListEnd, view_begin = 1, view_size = 1\<rparr>,
          \<lparr>source = ''x)'', cursor = 2, sem_value = StringValue ''x''\<rparr>)
   \<and> ParameterListEnd \<notin> {Identifier, LiteralInt, LiteralFloat}"
  using sem_value_written_for_valued_kinds_only [of stod_exact "new_Lexer ''x)''"
      "\<lparr>kind = Identifier, view_begin = 0, view_size = 1\<rparr>"
      "\<lparr>source = ''x)'', cursor = 1, sem_value = StringValue ''x''\<rparr>"]
    sem_value_written_for_valued_kinds_only [of stod_exact
      "\<lparr>source = ''x)'', cursor = 1, sem_value = StringValue ''x''\<rparr>"
      "\<lparr>kind = ParameterListEnd, view_begin = 1, view_size = 1\<rparr>"
      "\<lparr>source = ''x)'', cursor = 2, sem_value = StringValue ''x''\<rparr>"]
  by (simp add: lex_eval token_text_def)

subsection \<open>Calls on sources of a given shape\<close>

lemma match_view_first_differs:
  assumes "cursor s < length (source s)" and "source s ! cursor s \<noteq> x"
  shows "match_view s (x # xs) = Inr False"
proof -
  from assms(1) have "drop (cursor s) (source s) = source s ! cursor s # drop (Suc (cursor s)) (source s)"
    by (simp add: Cons_nth_drop_Suc)
  with assms show ?thesis by (simp add: match_view_def)
qed

lemma alnum_char:
  assumes "isalpha c \<or> isdigit c"
  shows "\<not> isspace c" and "c \<noteq> CHR ''/''"
    and "c \<notin> {CHR 0x0A, CHR ''('', CHR '')'', CHR ''{'', CHR ''}'', CHR ''['', CHR '']'',
               CHR ''='', CHR '':'', CHR '',''}"
  using assms by (auto simp: isalpha_def isdigit_def isspace_def Let_def)

lemma skip_until_stops_at_once:
  "\<not> eof s \<Longrightarrow> stop s = Inr True \<Longrightarrow> skip_until s stop = Inr s"
  by (subst skip_until.simps) simp

lemma skip_blank_at_token:
  assumes "cursor s < length (source s)" and "\<not> isspace (source s ! cursor s)"
    and "source s ! cursor s \<noteq> CHR ''/''"
  shows "skip_blank s = Inr s"
proof -
  have "skip_until s (\<lambda>l. ebind (deref l) (\<lambda>c. Inr (\<not> isspace c))) = Inr s"
    using assms by (intro skip_until_stops_at_once) (simp_all add: eof_def deref_def)
  moreover have "match_view s ''//'' = Inr False" "match_view s ''/*'' = Inr False"
    using assms by (simp_all add: match_view_first_differs)
  ultimately show ?thesis by (simp add: skip_blank_def)
qed

lemma try_basic_tokens_None:
  assumes "cursor s < length (source s)"
    and "isalpha (source s ! cursor s) \<or> isdigit (source s ! cursor s)"
  shows "try_basic_tokens s basic_tokens = Inr None"
  using alnum_char(3) [OF assms(2)] assms(1)
  by (simp add: basic_tokens_def try_tokenize_def match_view_first_differs)

lemma view_text_all: "view_text src 0 (length src) = src"
  by (simp add: view_text_def)

text \<open>The loop over a buffer all of whose bytes from the cursor on keep the loop going.\<close>

lemma skip_until_deref_to_end:
  assumes "cursor s \<le> length (source s)"
    and "\<And>i. cursor s \<le> i \<Longrightarrow> i < length (source s) \<Longrightarrow> \<not> P (source s ! i)"
  shows "skip_until s (\<lambda>l. ebind (deref l) (\<lambda>c. Inr (P c))) = Inr (s\<lparr>cursor := length (source s)\<rparr>)"
  using assms by (intro skip_until_run) (simp_all add: deref_def)

text \<open>
  C9: on a source that is a letter followed by letters and digits only, the call
  returns one token over the whole source.  Its kind is \<open>Return\<close>, \<open>Break\<close> or
  \<open>Continue\<close> when the source is that reserved word, and the stored value is then
  left as it was; otherwise the kind is \<open>Identifier\<close> and the stored value is the
  source text.
\<close>

theorem identifier_or_reserved_word:
  assumes "isalpha c" and "\<forall>x\<in>set cs. isalpha x \<or> isdigit x"
  shows "next_token stod \<lparr>source = c # cs, cursor = 0, sem_value = v\<rparr> =
     Inr (\<lparr>kind = (if c # cs = ''return'' then Return
                   else if c # cs = ''break'' then Break
                   else if c # cs = ''continue'' then Continue
                   else Identifier),
           view_begin = 0, view_size = length (c # cs)\<rparr>,
          \<lparr>source = c # cs, cursor = length (c # cs),
           sem_value = (if c # cs \<in> {''return'', ''break'', ''continue''} then v
                        else StringValue (c # cs))\<rparr>)"
proof -
  let ?s = "\<lparr>source = c # cs, cursor = 0, sem_value = v\<rparr>"
  from assms(1) have c: "\<not> isspace c" "c \<noteq> CHR ''/''" using alnum_char [of c] by simp_all
  have blank: "skip_blank ?s = Inr ?s" using c by (intro skip_blank_at_token) simp_all
  have basic: "try_basic_tokens ?s basic_tokens = Inr None"
    using assms(1) by (intro try_basic_tokens_None) simp_all
  have all: "is_identifier_char ((c # cs) ! i)" if "i < length (c # cs)" for i
    using assms that unfolding is_identifier_char_def is_first_identifier_char_def
    by (metis nth_mem set_ConsD)
  have run: "skip_until ?s (\<lambda>l. ebind (deref l) (\<lambda>c. Inr (\<not> is_identifier_char c)))
      = Inr (?s\<lparr>cursor := length (source ?s)\<rparr>)"
    using all by (intro skip_until_deref_to_end) simp_all
  have scan: "scan_identifier ?s 0 =
     Inr (\<lparr>kind = (if c # cs = ''return'' then Return
                   else if c # cs = ''break'' then Break
                   else if c # cs = ''continue'' then Continue
                   else Identifier),
           view_begin = 0, view_size = length (c # cs)\<rparr>,
          \<lparr>source = c # cs, cursor = length (c # cs),
           sem_value = (if c # cs \<in> {''return'', ''break'', ''continue''} then v
                        else StringValue (c # cs))\<rparr>)"
    unfolding scan_identifier_def run ebind_simps
    using view_text_all [of "c # cs"] by (simp add: Let_def make_token_def)
  show ?thesis
    unfolding next_token_def blank ebind_simps basic
    using assms(1) scan by (simp add: eof_def deref_def is_first_identifier_char_def)
qed


theorem identifier_or_reserved_word_witness:
  "isalpha CHR ''r'' \<and> list_all (\<lambda>x. isalpha x \<or> isdigit x) ''eturn''
   \<and> next_token stod_exact \<lparr>source = ''return'', cursor = 0, sem_value = NoValue\<rparr> =
       Inr (\<lparr>kind = Return, view_begin = 0, view_size = 6\<rparr>,
            \<lparr>source = ''return'', cursor = 6, sem_value = NoValue\<rparr>)
   \<and> isalpha CHR ''x'' \<and> list_all (\<lambda>x. isalpha x \<or> isdigit x) ''1''
   \<and> next_token stod_exact \<lparr>source = ''x1'', cursor = 0, sem_value = NoValue\<rparr> =
       Inr (\<lparr>kind = Identifier, view_begin = 0, view_size = 2\<rparr>,
            \<lparr>source = ''x1'', cursor = 2, sem_value = StringValue ''x1''\<rparr>)"
  using identifier_or_reserved_word [of "CHR ''r''" "''eturn''" stod_exact NoValue]
    identifier_or_reserved_word [of "CHR ''x''" "''1''" stod_exact NoValue]
  by (simp add: isalpha_def isdigit_def)

lemma decimal_snoc: "decimal (ds @ [d]) = 10 * decimal ds + digit_value d"
  by (simp add: decimal_def)

text \<open>
  C4, amended: on a source that is a non-empty run of decimal digits whose value is at
  most \<open>2\<^sup>6\<^sup>3 - 1\<close>, the call returns \<open>LiteralInt\<close> over the whole source and stores
  the value of the digits; when the value is larger, \<^verbatim>\<open>std::stoll\<close> throws
  \<^verbatim>\<open>std::out_of_range\<close> and the call returns no token.
\<close>

theorem digits_literal_int:
  assumes "ds \<noteq> []" and "\<forall>x\<in>set ds. isdigit x"
  shows "next_token stod \<lparr>source = ds, cursor = 0, sem_value = v\<rparr> =
     (if decimal ds \<le> 2 ^ 63 - 1
      then Inr (\<lparr>kind = LiteralInt, view_begin = 0, view_size = length ds\<rparr>,
                \<lparr>source = ds, cursor = length ds, sem_value = IntValue (decimal ds)\<rparr>)
      else Inl OutOfRange)"
proof -
  let ?s = "\<lparr>source = ds, cursor = 0, sem_value = v\<rparr>"
  from assms obtain c cs where ds: "ds = c # cs" and d: "isdigit c"
    by (cases ds) auto
  from d have c: "\<not> isspace c" "c \<noteq> CHR ''/''" "\<not> isalpha c"
    using alnum_char [of c] by (simp_all add: isalpha_def isdigit_def Let_def)
  have blank: "skip_blank ?s = Inr ?s" using c ds by (intro skip_blank_at_token) simp_all
  have basic: "try_basic_tokens ?s basic_tokens = Inr None"
    using d ds by (intro try_basic_tokens_None) simp_all
  have run: "skip_until ?s (\<lambda>l. ebind (deref l) (\<lambda>c. Inr (\<not> isdigit c)))
      = Inr (?s\<lparr>cursor := length (source ?s)\<rparr>)"
    using assms(2) by (intro skip_until_deref_to_end) simp_all
  have dot: "match_view (?s\<lparr>cursor := length (source ?s)\<rparr>) ''.'' = Inr False"
    by (simp add: match_view_def)
  have tw: "takeWhile isdigit ds = ds" using assms(2) by (simp add: takeWhile_eq_all_conv)
  have conv: "stoll ds = (if decimal ds \<le> 2 ^ 63 - 1 then Inr (decimal ds) else Inl OutOfRange)"
    using assms(1) by (simp add: stoll_def tw)
  have scan: "scan_number stod ?s 0 =
     (if decimal ds \<le> 2 ^ 63 - 1
      then Inr (\<lparr>kind = LiteralInt, view_begin = 0, view_size = length ds\<rparr>,
                \<lparr>source = ds, cursor = length ds, sem_value = IntValue (decimal ds)\<rparr>)
      else Inl OutOfRange)"
    unfolding scan_number_def run ebind_simps dot
    using view_text_all [of ds] by (simp add: conv make_token_def)
  show ?thesis
    unfolding next_token_def blank ebind_simps basic
    using c d ds scan by (simp add: eof_def deref_def is_first_identifier_char_def)
qed

theorem digits_literal_int_witness:
  "''042'' \<noteq> [] \<and> list_all isdigit ''042'' \<and> decimal ''042'' = 42
   \<and> next_token stod_exact \<lparr>source = ''042'', cursor = 0, sem_value = NoValue\<rparr> =
       Inr (\<lparr>kind = LiteralInt, view_begin = 0, view_size = 3\<rparr>,
            \<lparr>source = ''042'', cursor = 3, sem_value = IntValue 42\<rparr>)"
  using digits_literal_int [of "''042''" stod_exact NoValue]
  by (simp add: isdigit_def decimal_def digit_value_def)

text \<open>
  C4, as stated: every source of digits gives \<open>LiteralInt\<close>.  The nineteen digits of
  \<open>2\<^sup>6\<^sup>3\<close> do not: the call ends in the exception of \<^verbatim>\<open>std::stoll\<close>.
\<close>

theorem digits_overflow_counterexample:
  "''9223372036854775808'' \<noteq> [] \<and> list_all isdigit ''9223372036854775808''
   \<and> next_token stod_exact (new_Lexer ''9223372036854775808'') = Inl OutOfRange"
  by (simp add: lex_eval)


lemma no_block_end:
  "\<not> contains_block_end xs \<Longrightarrow> take 2 (drop i xs) \<noteq> ''*/''"
proof (induction xs arbitrary: i)
  case Nil
  show ?case by simp
next
  case (Cons a xs)
  show ?case
  proof (cases xs)
    case Nil
    then show ?thesis by (cases i) (simp_all add: numeral_2_eq_2)
  next
    case tail: (Cons b ys)
    show ?thesis
    proof (cases i)
      case 0
      with Cons.prems tail show ?thesis by (auto simp: numeral_2_eq_2)
    next
      case (Suc j)
      from Cons.prems tail have "\<not> contains_block_end xs" by simp
      from Cons.IH [OF this, of j] Suc show ?thesis by simp
    qed
  qed
qed

lemma match_view_no_block_end:
  assumes "\<not> contains_block_end (source s)" and "cursor s \<le> length (source s)"
  shows "match_view s ''*/'' = Inr False"
  using no_block_end [OF assms(1), of "cursor s"] assms(2)
  by (auto simp: match_view_def numeral_2_eq_2)

text \<open>
  C6: on a source that is white space, then \<^verbatim>\<open>/*\<close>, then any text, and in which the
  bytes \<^verbatim>\<open>*/\<close> occur nowhere, the call raises nothing, moves the cursor to the end
  of the buffer and returns \<open>EndOfFile\<close>; the stored value is unchanged.
\<close>

theorem unterminated_block_comment:
  assumes "\<forall>x\<in>set ws. isspace x" and "\<not> contains_block_end (ws @ ''/*'' @ rest)"
  shows "next_token stod \<lparr>source = ws @ ''/*'' @ rest, cursor = 0, sem_value = v\<rparr> =
     Inr (\<lparr>kind = EndOfFile, view_begin = length (ws @ ''/*'' @ rest), view_size = 1\<rparr>,
          \<lparr>source = ws @ ''/*'' @ rest, cursor = length (ws @ ''/*'' @ rest), sem_value = v\<rparr>)"
proof -
  let ?src = "ws @ ''/*'' @ rest"
  let ?s = "\<lparr>source = ?src, cursor = 0, sem_value = v\<rparr>"
  let ?a = "?s\<lparr>cursor := length ws\<rparr>"
  let ?e = "?s\<lparr>cursor := length ?src\<rparr>"
  have run1: "skip_until ?s (\<lambda>l. ebind (deref l) (\<lambda>c. Inr (\<not> isspace c))) = Inr ?a"
  proof (rule skip_until_run)
    show "cursor ?s \<le> length ws" by simp
    show "length ws \<le> length (source ?s)" by simp
    show "ebind (deref (?s\<lparr>cursor := i\<rparr>)) (\<lambda>c. Inr (\<not> isspace c)) = Inr False"
      if "cursor ?s \<le> i" "i < length ws" for i
      using that assms(1) by (simp add: deref_def nth_append)
    show "length ws = length (source ?s)
          \<or> ebind (deref (?s\<lparr>cursor := length ws\<rparr>)) (\<lambda>c. Inr (\<not> isspace c)) = Inr True"
      by (simp add: deref_def nth_append isspace_def)
  qed
  have m1: "match_view ?a ''//'' = Inr False" and m2: "match_view ?a ''/*'' = Inr True"
    by (simp_all add: match_view_def)
  have run2: "skip_until ?a (\<lambda>l. match_view l ''*/'') = Inr ?e"
  proof -
    have "skip_until ?a (\<lambda>l. match_view l ''*/'') = Inr (?a\<lparr>cursor := length ?src\<rparr>)"
    proof (rule skip_until_run)
      show "cursor ?a \<le> length ?src" by simp
      show "length ?src \<le> length (source ?a)" by simp
      show "match_view (?a\<lparr>cursor := i\<rparr>) ''*/'' = Inr False"
        if "cursor ?a \<le> i" "i < length ?src" for i
        using that assms(2) by (intro match_view_no_block_end) simp_all
      show "length ?src = length (source ?a) \<or> match_view (?a\<lparr>cursor := length ?src\<rparr>) ''*/'' = Inr True"
        by simp
    qed
    then show ?thesis by simp
  qed
  have "skip_beyond_view ?a ''*/'' = Inr ?e"
    unfolding skip_beyond_view_def skip_until_view_def run2 ebind_simps
    by (simp add: skip_def eof_def)
  then have blank: "skip_blank ?s = Inr ?e"
    unfolding skip_blank_def run1 ebind_simps m1 m2 by simp
  show ?thesis
    unfolding next_token_def blank ebind_simps by (simp add: eof_def)
qed

theorem unterminated_block_comment_witness:
  "list_all isspace ''  '' \<and> \<not> contains_block_end (''  '' @ ''/*'' @ '' abc * / d'')
   \<and> next_token stod_exact \<lparr>source = ''  /* abc * / d'', cursor = 0, sem_value = NoValue\<rparr> =
       Inr (\<lparr>kind = EndOfFile, view_begin = 14, view_size = 1\<rparr>,
            \<lparr>source = ''  /* abc * / d'', cursor = 14, sem_value = NoValue\<rparr>)"
  using unterminated_block_comment [of "''  ''" "'' abc * / d''" stod_exact NoValue]
  by (simp add: isspace_def)

text \<open>The opener itself can close the comment: in \<^verbatim>\<open>/*/x\<close> the bytes at offsets 1 and 2 do.\<close>

lemma opener_overlaps_close:
  "next_token stod_exact (new_Lexer ''/*/x'') =
     Inr (\<lparr>kind = Identifier, view_begin = 3, view_size = 1\<rparr>,
          \<lparr>source = ''/*/x'', cursor = 4, sem_value = StringValue ''x''\<rparr>)"
  by (simp add: lex_eval Let_def eval_nat_numeral)

subsection \<open>No read outside the buffer\<close>

lemma skip_until_total:
  assumes "cursor s \<le> length (source s)"
    and "\<And>i. cursor s \<le> i \<Longrightarrow> i < length (source s) \<Longrightarrow> \<exists>b. stop (s\<lparr>cursor := i\<rparr>) = Inr b"
  shows "\<exists>s'. skip_until s stop = Inr s'"
  using assms
proof (induction "length (source s) - cursor s" arbitrary: s)
  case 0
  then have "eof s" by (simp add: eof_def)
  then show ?case by (subst skip_until.simps) simp
next
  case (Suc d)
  then have lt: "cursor s < length (source s)" by simp
  then have ne: "\<not> eof s" by (simp add: eof_def)
  from Suc.prems(2) [of "cursor s"] lt obtain b where b: "stop s = Inr b" by auto
  show ?case
  proof (cases b)
    case True
    with ne b show ?thesis by (subst skip_until.simps) simp
  next
    case False
    let ?s = "s\<lparr>cursor := cursor s + 1\<rparr>"
    have "\<exists>s'. skip_until ?s stop = Inr s'"
    proof (rule Suc.hyps(1))
      show "d = length (source ?s) - cursor ?s" using Suc.hyps(2) by simp
      show "cursor ?s \<le> length (source ?s)" using lt by simp
      show "\<exists>b. stop (?s\<lparr>cursor := i\<rparr>) = Inr b"
        if "cursor ?s \<le> i" "i < length (source ?s)" for i
        using Suc.prems(2) [of i] that by simp
    qed
    with ne b False lt show ?thesis by (subst skip_until.simps) simp
  qed
qed

lemma skip_until_deref_total:
  "cursor s \<le> length (source s) \<Longrightarrow>
     \<exists>s'. skip_until s (\<lambda>l. ebind (deref l) (\<lambda>c. Inr (P c))) = Inr s'"
  by (rule skip_until_total) (simp_all add: deref_def)

lemma skip_until_view_total:
  "cursor s \<le> length (source s) \<Longrightarrow> \<exists>s'. skip_until s (\<lambda>l. match_view l str) = Inr s'"
  by (rule skip_until_total) (simp_all add: match_view_def)

lemma skip_blank_total:
  assumes "cursor s \<le> length (source s)"
  shows "\<exists>s'. skip_blank s = Inr s'"
proof -
  from skip_until_deref_total [OF assms, of "\<lambda>c. \<not> isspace c"]
  obtain a where a: "skip_until s (\<lambda>l. ebind (deref l) (\<lambda>c. Inr (\<not> isspace c))) = Inr a" ..
  from skip_until_deref_Inr [OF a] have A: "cursor a \<le> length (source a)"
    using Lexer_frame [of a "cursor a" s] by simp
  then obtain m1 m2 where m: "match_view a ''//'' = Inr m1" "match_view a ''/*'' = Inr m2"
    by (simp add: match_view_def)
  from skip_until_deref_total [OF A, of "\<lambda>d. d = CHR 0x0A"]
  obtain b where b: "skip_until_char a (CHR 0x0A) = Inr b"
    unfolding skip_until_char_def ..
  from skip_until_view_total [OF A, of "''*/''"]
  have "\<exists>c. skip_beyond_view a ''*/'' = Inr c"
    unfolding skip_beyond_view_def skip_until_view_def by auto
  then obtain c where c: "skip_beyond_view a ''*/'' = Inr c" ..
  show ?thesis
    unfolding skip_blank_def a ebind_simps m b c by (cases m1; cases m2) simp_all
qed

lemma try_basic_tokens_total:
  "cursor s \<le> length (source s) \<Longrightarrow> \<exists>r. try_basic_tokens s tbl = Inr r"
proof (induction tbl)
  case Nil
  show ?case by simp
next
  case (Cons p tbl)
  obtain name type where p: "p = (name, type)" by (cases p)
  from Cons.prems obtain m where m: "match_view s name = Inr m" by (simp add: match_view_def)
  with Cons p show ?case by (cases m) (auto simp: try_tokenize_def)
qed

lemma scan_identifier_total:
  assumes "cursor s \<le> length (source s)"
  shows "\<exists>r. scan_identifier s b = Inr r"
proof -
  from skip_until_deref_total [OF assms, of "\<lambda>c. \<not> is_identifier_char c"]
  obtain a where a: "skip_until s (\<lambda>l. ebind (deref l) (\<lambda>c. Inr (\<not> is_identifier_char c))) = Inr a" ..
  show ?thesis unfolding scan_identifier_def a ebind_simps by (simp add: Let_def)
qed

text \<open>A run that does not stop where it starts moves the cursor.\<close>

lemma skip_until_moves:
  assumes "skip_until s stop = Inr s'" and "\<not> eof s" and "stop s = Inr False"
  shows "cursor s < cursor s'"
proof -
  from assms have r: "skip_until (s\<lparr>cursor := cursor s + 1\<rparr>) stop = Inr s'"
    by (subst (asm) skip_until.simps) (simp split: if_splits)
  from skip_until_Inr [OF r] show ?thesis by simp
qed

lemma stoll_digit_run:
  assumes "b < e" and "e \<le> length src" and "isdigit (src ! b)"
  shows "stoll (view_text src b e) \<noteq> Inl InvalidArgument \<and> stoll (view_text src b e) \<noteq> Inl OutOfBoundsRead"
proof -
  from assms(1,2) have "view_text src b e = src ! b # take (e - b - 1) (drop (Suc b) src)"
    by (simp add: view_text_def Cons_nth_drop_Suc [symmetric] take_Suc_Cons [symmetric] Suc_diff_Suc del: take_Suc_Cons)
  with assms(3) show ?thesis by (simp add: stoll_def Let_def)
qed


lemma scan_number_errors:
  assumes "scan_number stod s b = Inl e" and "cursor s < length (source s)"
    and "isdigit (source s ! cursor s)" and "b = cursor s"
  shows "e = OutOfRange \<or> (\<exists>txt. stod txt = Inl e)"
proof -
  let ?stop = "\<lambda>l. ebind (deref l) (\<lambda>c. Inr (\<not> isdigit c))"
  from assms(2) have in_s: "cursor s \<le> length (source s)" by simp
  from skip_until_deref_total [OF in_s, of "\<lambda>c. \<not> isdigit c"]
  obtain a where a: "skip_until s ?stop = Inr a" ..
  note A = skip_until_deref_Inr [OF a]
  from A have fra: "source a = source s" using Lexer_frame [of a "cursor a" s] by simp
  have "cursor s < cursor a"
    using a assms(2,3) by (intro skip_until_moves [of s ?stop a]) (simp_all add: eof_def deref_def)
  with A fra assms(3,4) have conv: "stoll (view_text (source a) b (cursor a)) \<noteq> Inl InvalidArgument"
    "stoll (view_text (source a) b (cursor a)) \<noteq> Inl OutOfBoundsRead"
    using stoll_digit_run [of b "cursor a" "source a"] by simp_all
  from A fra obtain dot where dot: "match_view a ''.'' = Inr dot" by (simp add: match_view_def)
  show ?thesis
  proof (cases dot)
    case False
    with assms(1) have "stoll (view_text (source a) b (cursor a)) = Inl e"
      unfolding scan_number_def a ebind_simps dot
      by (cases "stoll (view_text (source a) b (cursor a))") simp_all
    with conv show ?thesis by (cases e) simp_all
  next
    case True
    with dot A fra have "cursor (skip a 1) \<le> length (source (skip a 1))"
      by (auto simp: match_view_def skip_def eof_def)
    from skip_until_deref_total [OF this, of "\<lambda>c. \<not> isdigit c"]
    obtain c where c: "skip_until (skip a 1) ?stop = Inr c" ..
    from assms(1) True have "stod (view_text (source c) b (cursor c)) = Inl e"
      unfolding scan_number_def a ebind_simps dot c
      by (cases "stod (view_text (source c) b (cursor c))") simp_all
    then show ?thesis by blast
  qed
qed

text \<open>
  From a cursor inside the buffer a call reads nothing outside the buffer: the only
  exceptions are \<^verbatim>\<open>std::out_of_range\<close> from \<^verbatim>\<open>std::stoll\<close> and whatever
  \<^verbatim>\<open>std::stod\<close> throws.
\<close>

lemma next_token_raises_conversion_errors_only:
  assumes "next_token stod s = Inl e" and "cursor s \<le> length (source s)"
  shows "e = OutOfRange \<or> (\<exists>txt. stod txt = Inl e)"
proof -
  from skip_blank_total [OF assms(2)] obtain s1 where s1: "skip_blank s = Inr s1" ..
  note B = skip_blank_Inr [OF s1]
  from B have fr: "source s1 = source s" using Lexer_frame [of s1 "cursor s1" s] by simp
  with B have in1: "cursor s1 \<le> length (source s1)" by simp
  from try_basic_tokens_total [OF in1] obtain r where r: "try_basic_tokens s1 basic_tokens = Inr r" ..
  from scan_identifier_total [OF in1] obtain i where i: "scan_identifier s1 (cursor s1) = Inr i" ..
  show ?thesis
  proof (cases "eof s1")
    case True
    with assms(1) show ?thesis by (simp add: next_token_def s1)
  next
    case False
    with in1 have lt: "cursor s1 < length (source s1)" by (simp add: eof_def)
    then have d: "deref s1 = Inr (source s1 ! cursor s1)" by (simp add: deref_def)
    show ?thesis
    proof (cases r)
      case (Some p)
      with assms(1) False show ?thesis by (simp add: next_token_def s1 r)
    next
      case None
      with assms(1) False have "isdigit (source s1 ! cursor s1)"
        and "scan_number stod s1 (cursor s1) = Inl e"
        by (simp_all add: next_token_def s1 r d i Let_def split: if_splits)
      then show ?thesis using lt by (intro scan_number_errors [of stod s1 "cursor s1"]) simp_all
    qed
  qed
qed

end
